theory Spec2Isabelle
  imports Complex_Main
begin

section \<open>JavaScript values as the validator sees them\<close>

text \<open>
  A JavaScript number is an IEEE double. The validator of \<open>createVideoSequence\<close> applies
  only \<open>Math.abs\<close>, \<open>%\<close> and \<open><=\<close> to numbers; all three are exact on doubles (the
  remainder of two finite doubles is a double), so a finite double is modelled by the
  rational it denotes and the three special values are constructors of their own.
  Negative zero is not distinguished from zero: no operation used here tells them apart.
\<close>

datatype jsnum = Fin rat | PosInf | NegInf | NaN

text \<open>\<open>Math.abs\<close>.\<close>

fun js_abs :: "jsnum \<Rightarrow> jsnum" where
  "js_abs (Fin q) = Fin \<bar>q\<bar>"
| "js_abs PosInf = PosInf"
| "js_abs NegInf = PosInf"
| "js_abs NaN = NaN"

text \<open>
  The \<open>%\<close> operator: the result is NaN when an operand is NaN, the dividend is infinite or
  the divisor is zero; the dividend itself when the divisor is infinite; otherwise
  \<open>a - b * trunc (a / b)\<close>, with the quotient truncated towards zero.
\<close>

definition trunc :: "rat \<Rightarrow> int" where
  "trunc q = (if 0 \<le> q then \<lfloor>q\<rfloor> else \<lceil>q\<rceil>)"

fun js_rem :: "jsnum \<Rightarrow> jsnum \<Rightarrow> jsnum" where
  "js_rem NaN _ = NaN"
| "js_rem _ NaN = NaN"
| "js_rem PosInf _ = NaN"
| "js_rem NegInf _ = NaN"
| "js_rem (Fin a) PosInf = Fin a"
| "js_rem (Fin a) NegInf = Fin a"
| "js_rem (Fin a) (Fin b) = (if b = 0 then NaN else Fin (a - b * of_int (trunc (a / b))))"

text \<open>The comparisons \<open><=\<close> and \<open><\<close>: false whenever an operand is NaN.\<close>

fun js_le :: "jsnum \<Rightarrow> jsnum \<Rightarrow> bool" where
  "js_le NaN _ = False"
| "js_le _ NaN = False"
| "js_le NegInf _ = True"
| "js_le _ PosInf = True"
| "js_le PosInf _ = False"
| "js_le _ NegInf = False"
| "js_le (Fin a) (Fin b) = (a \<le> b)"

fun js_lt :: "jsnum \<Rightarrow> jsnum \<Rightarrow> bool" where
  "js_lt NaN _ = False"
| "js_lt _ NaN = False"
| "js_lt PosInf _ = False"
| "js_lt _ NegInf = False"
| "js_lt NegInf _ = True"
| "js_lt _ PosInf = True"
| "js_lt (Fin a) (Fin b) = (a < b)"

text \<open>
  The value \<open>JSON.parse\<close> returns. An object is the list of its own properties (their
  names are distinct: \<open>JSON.parse\<close> keeps one value per name).
\<close>

datatype json =
    JNull
  | JBool bool
  | JNum jsnum
  | JStr string
  | JArr "json list"
  | JObj "(string \<times> json) list"

text \<open>
  \<open>JSON.parse\<close> never returns NaN, at any depth: a number literal denotes a finite double
  or, when it overflows (as \<open>1e999\<close> does), an infinity.
\<close>

fun parsed :: "json \<Rightarrow> bool" where
  "parsed JNull = True"
| "parsed (JBool b) = True"
| "parsed (JNum x) = (x \<noteq> NaN)"
| "parsed (JStr s) = True"
| "parsed (JArr xs) = list_all parsed xs"
| "parsed (JObj kvs) = list_all (\<lambda>kv. parsed (snd kv)) kvs"

text \<open>
  \<open>item?.name\<close> for one of the names \<open>clipIndex\<close>, \<open>duration\<close>, \<open>description\<close>: the
  property of an object, and \<open>undefined\<close> (here \<open>None\<close>) on \<open>null\<close>, on a primitive and on an
  array, none of which has a property of these names.
\<close>

fun getProp :: "json \<Rightarrow> string \<Rightarrow> json option" where
  "getProp (JObj kvs) name = map_of kvs name"
| "getProp _ name = None"

text \<open>\<open>'name' in obj\<close> for an object returned by \<open>JSON.parse\<close>.\<close>

definition has_key :: "(string \<times> json) list \<Rightarrow> string \<Rightarrow> bool" where
  "has_key kvs name = (map_of kvs name \<noteq> None)"

text \<open>\<open>String.prototype.includes\<close>.\<close>

fun startsWith :: "string \<Rightarrow> string \<Rightarrow> bool" where
  "startsWith s [] = True"
| "startsWith [] (c # cs) = False"
| "startsWith (d # ds) (c # cs) = (d = c \<and> startsWith ds cs)"

fun js_includes :: "string \<Rightarrow> string \<Rightarrow> bool" where
  "js_includes [] sub = (sub = [])"
| "js_includes (d # ds) sub = (startsWith (d # ds) sub \<or> js_includes ds sub)"

section \<open>The validator of createVideoSequence (services/geminiService.ts)\<close>

record EditDecision =
  clipIndex :: jsnum
  duration :: jsnum
  description :: string

text \<open>
  The callback of \<open>parsedJson.map\<close>: \<open>None\<close> is the \<open>null\<close> returned for an item that
  fails the structural check, which the following \<open>filter\<close> removes. The argument \<open>n\<close> is
  \<open>clips.length\<close>.
\<close>

definition repairItem :: "nat \<Rightarrow> json \<Rightarrow> EditDecision option" where
  "repairItem n item =
     (case getProp item ''clipIndex'' of
        Some (JNum ci) \<Rightarrow>
          (case getProp item ''duration'' of
             Some (JNum d) \<Rightarrow>
               if js_le d (Fin 0) then None
               else (case getProp item ''description'' of
                       Some (JStr s) \<Rightarrow>
                         Some \<lparr>clipIndex = js_rem (js_abs ci) (Fin (of_nat n)),
                               duration = d, description = s\<rparr>
                     | _ \<Rightarrow> None)
           | _ \<Rightarrow> None)
      | _ \<Rightarrow> None)"

definition repairedAndValidatedDecisions :: "nat \<Rightarrow> json list \<Rightarrow> EditDecision list" where
  "repairedAndValidatedDecisions n items = List.map_filter (repairItem n) items"

definition msg_unexpected_format :: string where
  "msg_unexpected_format = ''The AI returned a response in an unexpected format. This is often a temporary issue, please try generating again.''"

definition msg_not_array :: string where
  "msg_not_array = ''AI response is not a valid array of edit decisions.''"

definition msg_no_sequence :: string where
  "msg_no_sequence = ''The AI failed to generate a valid video sequence. Please try again with different clips or a clearer description.''"

definition msg_safety :: string where
  "msg_safety = ''The request was blocked due to safety policies. Please try different clips or a different description.''"

definition msg_unable :: string where
  "msg_unable = ''The AI was unable to create a video sequence. This could be due to a temporary network issue or an internal error. Please try again.''"

text \<open>
  The body of the \<open>try\<close> block from \<open>JSON.parse\<close> on. The argument is the outcome of
  \<open>JSON.parse\<close> (\<open>None\<close> when it throws); \<open>Inl\<close> carries the message of the thrown error.
\<close>

definition validateResponse :: "nat \<Rightarrow> json option \<Rightarrow> string + EditDecision list" where
  "validateResponse n response =
     (case response of
        None \<Rightarrow> Inl msg_unexpected_format
      | Some parsedJson \<Rightarrow>
          (case (case parsedJson of
                   JArr items \<Rightarrow> Inr items
                 | JObj kvs \<Rightarrow>
                     if has_key kvs ''clipIndex'' then Inr [JObj kvs] else Inl msg_not_array
                 | _ \<Rightarrow> Inl msg_not_array) of
             Inl e \<Rightarrow> Inl e
           | Inr items \<Rightarrow>
               let ds = repairedAndValidatedDecisions n items
               in if length ds = 0 then Inl msg_no_sequence else Inr ds))"

text \<open>The \<open>catch\<close> block: which error the caller finally sees.\<close>

definition catchError :: "string \<Rightarrow> string" where
  "catchError message =
     (if js_includes message ''SAFETY'' then msg_safety
      else if js_includes message ''unexpected format'' \<or> js_includes message ''valid video sequence''
           then message
      else msg_unable)"

definition createVideoSequence :: "nat \<Rightarrow> json option \<Rightarrow> string + EditDecision list" where
  "createVideoSequence n response =
     (case validateResponse n response of
        Inl message \<Rightarrow> Inl (catchError message)
      | Inr ds \<Rightarrow> Inr ds)"

section \<open>Energy segmentation (analyzeEnergy of the audio analysis service)\<close>

datatype intensity = Low | Medium | High

text \<open>
  Times are quotients of a sample index by the sample rate. The source divides doubles;
  the embedding divides rationals, which keeps every equality between two quotients of the
  same operands and drops the rounding of each quotient.
\<close>

record EnergySegment =
  startTime :: rat
  endTime :: rat
  intensity :: intensity

text \<open>
  The part of an \<open>AudioBuffer\<close> that \<open>analyzeEnergy\<close> reads: the samples of channel 0 and
  the sample rate (a whole number of samples per second). \<open>buffer.duration\<close> is, by the
  Web Audio interface, the length divided by the sample rate.
\<close>

record 'a AudioBuffer =
  channelData :: "'a list"
  sampleRate :: nat

definition bufferDuration :: "'a AudioBuffer \<Rightarrow> rat" where
  "bufferDuration buffer = of_nat (length (channelData buffer)) / of_nat (sampleRate buffer)"

text \<open>\<open>data.slice(i, segmentEnd)\<close> for \<open>i \<le> segmentEnd\<close>.\<close>

definition slice :: "'a list \<Rightarrow> nat \<Rightarrow> nat \<Rightarrow> 'a list" where
  "slice data i segmentEnd = take (segmentEnd - i) (drop i data)"

text \<open>
  The first loop. The sum of squares and \<open>Math.sqrt\<close> are computed in double arithmetic,
  which the embedding does not reproduce: the function \<open>rms\<close> that gives the energy of one
  window is an argument, and the results below hold for every such function into a
  linear order (the doubles without NaN). The loop does not end when the sample rate is
  0 and there is a sample: it is a partial function, \<open>None\<close> where it does not return.
\<close>

partial_function (option) windowLoop ::
  "('a list \<Rightarrow> 'e) \<Rightarrow> 'a list \<Rightarrow> nat \<Rightarrow> nat \<Rightarrow> nat
     \<Rightarrow> EnergySegment list \<times> 'e list \<Rightarrow> (EnergySegment list \<times> 'e list) option" where
  "windowLoop rms data rate samplesPerSegment i acc =
     (if i < length data then
        let segmentEnd = min (i + samplesPerSegment) (length data);
            segment = slice data i segmentEnd;
            startTime = of_nat i / of_nat rate
        in windowLoop rms data rate samplesPerSegment (i + samplesPerSegment)
             (fst acc @ [\<lparr>startTime = startTime, endTime = of_nat segmentEnd / of_nat rate,
                            intensity = Low\<rparr>],
              snd acc @ [rms segment])
      else Some acc)"

text \<open>
  \<open>sortedEnergy[Math.floor(sortedEnergy.length * c)]\<close>: \<open>None\<close> is the \<open>undefined\<close> of a read
  past the end. For \<open>c\<close> one of 0.33 and 0.66 the double product has the floor of the exact
  one at every length an array can have here.
\<close>

definition percentile :: "'e list \<Rightarrow> rat \<Rightarrow> 'e option" where
  "percentile sortedEnergy c =
     (let k = nat \<lfloor>of_nat (length sortedEnergy) * c\<rfloor>
      in if k < length sortedEnergy then Some (sortedEnergy ! k) else None)"

text \<open>\<open>energy >= threshold\<close>, false against \<open>undefined\<close>.\<close>

definition atLeast_threshold :: "'e::linorder \<Rightarrow> 'e option \<Rightarrow> bool" where
  "atLeast_threshold energy threshold =
     (case threshold of None \<Rightarrow> False | Some t \<Rightarrow> t \<le> energy)"

definition classify :: "'e::linorder option \<Rightarrow> 'e option \<Rightarrow> 'e \<Rightarrow> intensity" where
  "classify lowThreshold highThreshold energy =
     (if atLeast_threshold energy highThreshold then High
      else if atLeast_threshold energy lowThreshold then Medium
      else Low)"

text \<open>
  The merging loop over \<open>classifiedSegments[1..]\<close>, with the push of the last segment that
  follows it.
\<close>

fun mergeLoop :: "EnergySegment list \<Rightarrow> EnergySegment \<Rightarrow> EnergySegment list \<Rightarrow> EnergySegment list" where
  "mergeLoop [] currentSegment mergedSegments = mergedSegments @ [currentSegment]"
| "mergeLoop (nextSegment # rest) currentSegment mergedSegments =
     (if intensity nextSegment = intensity currentSegment
      then mergeLoop rest (currentSegment\<lparr>endTime := endTime nextSegment\<rparr>) mergedSegments
      else mergeLoop rest nextSegment (mergedSegments @ [currentSegment]))"

definition analyzeEnergy :: "('a list \<Rightarrow> 'e::linorder) \<Rightarrow> 'a AudioBuffer \<Rightarrow> EnergySegment list option" where
  "analyzeEnergy rms buffer =
     (let data = channelData buffer;
          rate = sampleRate buffer;
          samplesPerSegment = rate * 1
      in case windowLoop rms data rate samplesPerSegment 0 ([], []) of
           None \<Rightarrow> None
         | Some (segments, energyLevels) \<Rightarrow>
             if length energyLevels = 0 then Some []
             else
               let sortedEnergy = sort energyLevels;
                   lowThreshold = percentile sortedEnergy (33 / 100);
                   highThreshold = percentile sortedEnergy (66 / 100);
                   classifiedSegments =
                     map (\<lambda>(segment, energy).
                            segment\<lparr>intensity := classify lowThreshold highThreshold energy\<rparr>)
                         (zip segments energyLevels)
               in (case classifiedSegments of
                     [] \<Rightarrow> Some []
                   | first # rest \<Rightarrow> Some (mergeLoop rest first [])))"

text \<open>
  The window energy in exact arithmetic, as the inner loop writes it: the square root of
  the mean of the squares.
\<close>

definition rmsExact :: "real list \<Rightarrow> real" where
  "rmsExact segment =
     sqrt (foldl (\<lambda>sumOfSquares x. sumOfSquares + x * x) 0 segment / real (length segment))"

section \<open>Clip identity (utils/video.ts and the video analysis service)\<close>

text \<open>
  The fields of a \<open>File\<close> that the two keys read. \<open>lastModified\<close> is a whole number of
  milliseconds and \<open>size\<close> a whole number of bytes; a template literal prints such a number
  in decimal, with a leading minus sign when it is negative.
\<close>

record File =
  fileName :: string
  lastModified :: int
  fileSize :: nat

definition digit :: "nat \<Rightarrow> char" where
  "digit d = ''0123456789'' ! d"

function showNat :: "nat \<Rightarrow> string" where
  "showNat n = (if n < 10 then [digit n] else showNat (n div 10) @ [digit (n mod 10)])"
  by pat_completeness auto
termination
  by (relation "measure id") auto

declare showNat.simps [simp del]

definition showInt :: "int \<Rightarrow> string" where
  "showInt k = (if k < 0 then CHR ''-'' # showNat (nat (- k)) else showNat (nat k))"

text \<open>
  \<open>getClipMetadata\<close>: the promise settles once the metadata of the video element has
  loaded (or failed to) and \<open>extractFrame\<close> has settled. \<open>loaded\<close> is \<open>None\<close> when the video
  element reports an error, and otherwise the duration, width and height it read;
  \<open>frame\<close> is the outcome of \<open>extractFrame(file, 0.1)\<close>; \<open>now\<close> is \<open>new Date()\<close>.
\<close>

record ClipMetadata =
  clipId :: string
  clipFile :: File
  clipName :: string
  clipSize :: nat
  clipDuration :: rat
  resolution :: "nat \<times> nat"
  thumbnail :: string
  createdAt :: int

definition getClipMetadata ::
  "File \<Rightarrow> (rat \<times> nat \<times> nat) option \<Rightarrow> string + string \<Rightarrow> int \<Rightarrow> string + ClipMetadata" where
  "getClipMetadata file loaded frame now =
     (case loaded of
        None \<Rightarrow>
          Inl (''Failed to load video metadata for '' @ fileName file @
               ''. It might be a corrupted file.'')
      | Some (videoDuration, videoWidth, videoHeight) \<Rightarrow>
          (case frame of
             Inl err \<Rightarrow> Inl err
           | Inr thumb \<Rightarrow>
               Inr \<lparr>clipId = fileName file @ ''-'' @ showInt (lastModified file),
                    clipFile = file,
                    clipName = fileName file,
                    clipSize = fileSize file,
                    clipDuration = videoDuration,
                    resolution = (videoWidth, videoHeight),
                    thumbnail = thumb,
                    createdAt = now\<rparr>))"

text \<open>The key \<open>fileId\<close> that \<open>analyzeVideoContent\<close> builds.\<close>

definition fileId :: "File \<Rightarrow> string" where
  "fileId file =
     fileName file @ ''-'' @ showInt (lastModified file) @ ''-'' @ showNat (fileSize file)"

section \<open>The analysis worker (workerCode of the video analysis service)\<close>

text \<open>
  An \<open>ImageData\<close>: \<open>4 * width * height\<close> bytes, four (red, green, blue, alpha) for each
  pixel, row by row.
\<close>

record ImageData =
  width :: nat
  height :: nat
  bytes :: "nat list"

record DetectedObject =
  objClass :: string
  score :: rat

datatype category = People | Nature | Urban | Action | Other

datatype motion = Static | LowMotion | MediumMotion | HighMotion

record VideoAnalysis =
  hasFaces :: bool
  detectedObjects :: "DetectedObject list"
  dominantCategory :: category
  motionLevel :: motion
  avgBrightness :: rat
  visualComplexity :: rat

text \<open>
  The metrics below divide and add doubles in the source and rationals here. None of
  their values reaches a result of the worker (see \<open>analysisResult\<close>).
\<close>

definition pixelIndices :: "nat list \<Rightarrow> nat list" where
  "pixelIndices data = map (\<lambda>j. 4 * j) [0..<(length data + 3) div 4]"

definition analyzeBrightness :: "ImageData \<Rightarrow> rat" where
  "analyzeBrightness imageData =
     (let data = bytes imageData;
          totalBrightness =
            foldl (\<lambda>soFar i. soFar + of_nat (data ! i + data ! (i + 1) + data ! (i + 2)) / 3)
                  0 (pixelIndices data)
      in (totalBrightness / (of_nat (length data) / 4)) / 255)"

text \<open>
  \<open>applySobel\<close>. The luminance \<open>0.299 r + 0.587 g + 0.114 b\<close> is computed in doubles and
  rounded by the \<open>Uint8ClampedArray\<close> that stores it; the byte stored is the argument
  \<open>luma\<close>. A gradient is a whole number, and its magnitude \<open>Math.sqrt(gx * gx + gy * gy)\<close>
  exceeds 128 exactly when \<open>gx * gx + gy * gy\<close> exceeds \<open>128 * 128\<close>.
\<close>

definition grayscale :: "(nat \<Rightarrow> nat \<Rightarrow> nat \<Rightarrow> nat) \<Rightarrow> ImageData \<Rightarrow> nat list" where
  "grayscale luma imageData =
     map (\<lambda>j. luma (bytes imageData ! (4 * j)) (bytes imageData ! (4 * j + 1))
                     (bytes imageData ! (4 * j + 2)))
         [0..<width imageData * height imageData]"

definition isEdge :: "nat list \<Rightarrow> nat \<Rightarrow> nat \<Rightarrow> bool" where
  "isEdge gray w i =
     (let g = (\<lambda>k. int (gray ! k));
          gx = (g (i - w - 1) - g (i - w + 1)) + (2 * (g (i - 1) - g (i + 1)))
               + (g (i + w - 1) - g (i + w + 1));
          gy = (g (i - w - 1) - g (i + w - 1)) + (2 * (g (i - w) - g (i + w)))
               + (g (i - w + 1) - g (i + w + 1))
      in gx * gx + gy * gy > 128 * 128)"

definition edgePixels :: "nat list \<Rightarrow> nat \<Rightarrow> nat \<Rightarrow> nat" where
  "edgePixels gray w h =
     sum_list (map (\<lambda>y. length (filter (\<lambda>x. isEdge gray w (y * w + x)) [1..<w - 1]))
                   [1..<h - 1])"

definition applySobel :: "(nat \<Rightarrow> nat \<Rightarrow> nat \<Rightarrow> nat) \<Rightarrow> ImageData \<Rightarrow> rat" where
  "applySobel luma imageData =
     of_nat (edgePixels (grayscale luma imageData) (width imageData) (height imageData))
       / of_nat (width imageData * height imageData)"

definition calculateMotion :: "ImageData \<Rightarrow> ImageData \<Rightarrow> motion" where
  "calculateMotion frame1 frame2 =
     (let data1 = bytes frame1; data2 = bytes frame2;
          d = (\<lambda>i. \<bar>int (data1 ! i) - int (data2 ! i)\<bar>);
          diff = foldl (\<lambda>soFar i. soFar + d i + d (i + 1) + d (i + 2)) 0 (pixelIndices data1);
          motionScore = (of_int diff :: rat) / of_nat (length data1 * 3 * 255)
      in if motionScore > 1 / 10 then HighMotion
         else if motionScore > 3 / 100 then MediumMotion
         else if motionScore > 5 / 1000 then LowMotion
         else Static)"

definition classifyObjects :: "DetectedObject list \<Rightarrow> category" where
  "classifyObjects objects =
     (let classes = set (map objClass objects)
      in if ''person'' \<in> classes then People
         else if ''car'' \<in> classes \<or> ''bus'' \<in> classes \<or> ''traffic light'' \<in> classes
              then Urban
         else if ''sports ball'' \<in> classes \<or> ''skateboard'' \<in> classes
                 \<or> ''surfboard'' \<in> classes
              then Action
         else if ''bird'' \<in> classes \<or> ''cat'' \<in> classes \<or> ''dog'' \<in> classes
                 \<or> ''tree'' \<in> classes
              then Nature
         else Other)"

text \<open>
  The functions of one frame that \<open>workerCode\<close> declares, by name. A call of any other
  name with a frame finds no binding in the worker's scope (the imported scripts bind
  \<open>tf\<close>, \<open>cocoSsd\<close> and \<open>blazeface\<close> only) and throws the ReferenceError
  \<open>name is not defined\<close>.
\<close>

definition frameFunction ::
  "(nat \<Rightarrow> nat \<Rightarrow> nat \<Rightarrow> nat) \<Rightarrow> string \<Rightarrow> (ImageData \<Rightarrow> rat) option" where
  "frameFunction luma name =
     (if name = ''analyzeBrightness'' then Some analyzeBrightness
      else if name = ''applySobel'' then Some (applySobel luma)
      else None)"

definition callFrameFunction ::
  "(nat \<Rightarrow> nat \<Rightarrow> nat \<Rightarrow> nat) \<Rightarrow> string \<Rightarrow> ImageData \<Rightarrow> string + rat" where
  "callFrameFunction luma name frame =
     (case frameFunction luma name of
        None \<Rightarrow> Inl (name @ '' is not defined'')
      | Some f \<Rightarrow> Inr (f frame))"

text \<open>\<open>frameDatas.reduce((sum, fd) => sum + analyzeBrightness(fd), 0)\<close>.\<close>

fun sumBrightness ::
  "(nat \<Rightarrow> nat \<Rightarrow> nat \<Rightarrow> nat) \<Rightarrow> rat \<Rightarrow> ImageData list \<Rightarrow> string + rat" where
  "sumBrightness luma soFar [] = Inr soFar"
| "sumBrightness luma soFar (fd # fds) =
     (case callFrameFunction luma ''analyzeBrightness'' fd of
        Inl e \<Rightarrow> Inl e
      | Inr b \<Rightarrow> sumBrightness luma (soFar + b) fds)"

text \<open>
  The part of the message handler after the two models have run on the central frame:
  the metrics and the result object. \<open>frameDatas\<close> are the extracted frames (at least
  one), \<open>objectPredictions\<close> the detections mapped to class and score, \<open>faceCount\<close> the
  length of \<open>facePredictions\<close>. \<open>Inl\<close> carries the message of a thrown error.
\<close>

definition analysisResult ::
  "(nat \<Rightarrow> nat \<Rightarrow> nat \<Rightarrow> nat) \<Rightarrow> ImageData list \<Rightarrow> DetectedObject list \<Rightarrow> nat
     \<Rightarrow> string + VideoAnalysis" where
  "analysisResult luma frameDatas objectPredictions faceCount =
     (let centralFrame = frameDatas ! (length frameDatas div 2)
      in case sumBrightness luma 0 frameDatas of
           Inl e \<Rightarrow> Inl e
         | Inr brightnessSum \<Rightarrow>
             (case callFrameFunction luma ''analyzeSobel'' centralFrame of
                Inl e \<Rightarrow> Inl e
              | Inr complexity \<Rightarrow>
                  Inr \<lparr>hasFaces = (faceCount > 0),
                       detectedObjects = objectPredictions,
                       dominantCategory = classifyObjects objectPredictions,
                       motionLevel =
                         (if length frameDatas > 1
                          then calculateMotion (frameDatas ! 0)
                                 (frameDatas ! (length frameDatas - 1))
                          else Static),
                       avgBrightness = brightnessSum / of_nat (length frameDatas),
                       visualComplexity = complexity\<rparr>))"

text \<open>
  The message the worker posts back. \<open>stages\<close> is the outcome of the steps before the
  metrics (loading the models, reading the duration, extracting the frames, running the
  two models): the error one of them threw, or the frames and predictions.
\<close>

datatype reply = Succeeded string VideoAnalysis | Failed string string

definition workerOnMessage ::
  "(nat \<Rightarrow> nat \<Rightarrow> nat \<Rightarrow> nat) \<Rightarrow> string
     \<Rightarrow> string + ImageData list \<times> DetectedObject list \<times> nat \<Rightarrow> reply" where
  "workerOnMessage luma fid stages =
     (case (case stages of
              Inl e \<Rightarrow> Inl e
            | Inr (frameDatas, objectPredictions, faceCount) \<Rightarrow>
                analysisResult luma frameDatas objectPredictions faceCount) of
        Inl e \<Rightarrow> Failed fid e
      | Inr result \<Rightarrow> Succeeded fid result)"

section \<open>The task registry (analyzeVideoContent and the worker's reply handler)\<close>

text \<open>
  The module state: whether \<open>worker\<close> holds a worker, the map \<open>runningTasks\<close> from a key to
  the promise waiting for it, the messages posted to the worker so far, and how each
  promise was settled. Promises are numbered as they are created.
\<close>

record registry =
  hasWorker :: bool
  runningTasks :: "string \<rightharpoonup> nat"
  posted :: "(File \<times> string) list"
  settled :: "(nat \<times> (string + VideoAnalysis)) list"
  promises :: nat

definition initialRegistry :: registry where
  "initialRegistry =
     \<lparr>hasWorker = False, runningTasks = Map.empty, posted = [], settled = [], promises = 0\<rparr>"

text \<open>
  \<open>getWorker\<close>: creates the worker on first use; \<open>canCreate\<close> tells whether the
  environment lets the constructor succeed.
\<close>

definition getWorker :: "bool \<Rightarrow> registry \<Rightarrow> registry" where
  "getWorker canCreate s = (if \<not> hasWorker s then s\<lparr>hasWorker := canCreate\<rparr> else s)"

text \<open>
  What \<open>analyzeVideoContent\<close> returns: a promise rejected at once with a message, or the
  pending promise of the given number.
\<close>

datatype promise = Rejected string | Pending nat

definition analyzeVideoContent :: "bool \<Rightarrow> File \<Rightarrow> registry \<Rightarrow> promise \<times> registry" where
  "analyzeVideoContent canCreate file s0 =
     (let s = getWorker canCreate s0
      in if \<not> hasWorker s then (Rejected ''Video analysis worker is not available.'', s)
         else if runningTasks s (fileId file) \<noteq> None
              then (Rejected ''This clip is already being analyzed.'', s)
         else (Pending (promises s),
               s\<lparr>runningTasks := (runningTasks s)(fileId file \<mapsto> promises s),
                  posted := posted s @ [(file, fileId file)],
                  promises := promises s + 1\<rparr>))"

text \<open>The handler \<open>worker.onmessage\<close> of the main thread.\<close>

definition replyKey :: "reply \<Rightarrow> string" where
  "replyKey r = (case r of Succeeded fid a \<Rightarrow> fid | Failed fid e \<Rightarrow> fid)"

definition onWorkerMessage :: "reply \<Rightarrow> registry \<Rightarrow> registry" where
  "onWorkerMessage r s =
     (case runningTasks s (replyKey r) of
        None \<Rightarrow> s
      | Some task \<Rightarrow>
          s\<lparr>settled := settled s @
                 [(task, case r of Succeeded fid a \<Rightarrow> Inr a | Failed fid e \<Rightarrow> Inl e)],
             runningTasks := (runningTasks s)(replyKey r := None)\<rparr>)"

text \<open>The states the module can be in: any run of calls and replies from the start.\<close>

inductive reachable :: "registry \<Rightarrow> bool" where
  start: "reachable initialRegistry"
| call: "reachable s \<Longrightarrow> reachable (snd (analyzeVideoContent canCreate file s))"
| reply: "reachable s \<Longrightarrow> reachable (onWorkerMessage r s)"

section \<open>Notions used in the statements\<close>

text \<open>
  The structural check in words: \<open>clipIndex\<close> is a number, \<open>duration\<close> is a number greater
  than 0 and \<open>description\<close> is a string.
\<close>

definition isNumber :: "json option \<Rightarrow> bool" where
  "isNumber v = (case v of Some (JNum x) \<Rightarrow> True | _ \<Rightarrow> False)"

definition isPositiveNumber :: "json option \<Rightarrow> bool" where
  "isPositiveNumber v = (case v of Some (JNum x) \<Rightarrow> js_lt (Fin 0) x | _ \<Rightarrow> False)"

definition isString :: "json option \<Rightarrow> bool" where
  "isString v = (case v of Some (JStr s) \<Rightarrow> True | _ \<Rightarrow> False)"

definition structurallyValid :: "json \<Rightarrow> bool" where
  "structurallyValid item =
     (isNumber (getProp item ''clipIndex'') \<and> isPositiveNumber (getProp item ''duration'')
      \<and> isString (getProp item ''description''))"

text \<open>A repaired index is in range: \<open>0 <= clipIndex\<close> and \<open>clipIndex < n\<close>.\<close>

definition inRange :: "jsnum \<Rightarrow> nat \<Rightarrow> bool" where
  "inRange x n = (js_le (Fin 0) x \<and> js_lt x (Fin (of_nat n)))"

text \<open>
  The 1-second windows of a sample list, to speak about them in statements: consecutive
  runs of \<open>n\<close> samples, the last one possibly shorter.
\<close>

function windows :: "nat \<Rightarrow> 'a list \<Rightarrow> 'a list list" where
  "windows n xs = (if n = 0 \<or> xs = [] then [] else take n xs # windows n (drop n xs))"
  by pat_completeness auto
termination
  by (relation "measure (\<lambda>(n, xs). length xs)") auto

declare windows.simps [simp del]

text \<open>
  The segments the first loop builds from sample index \<open>i\<close> on, and the classified
  segments that the merging loop receives.
\<close>

function windowSegments :: "nat \<Rightarrow> nat \<Rightarrow> nat \<Rightarrow> nat \<Rightarrow> EnergySegment list" where
  "windowSegments len rate n i =
     (if n = 0 \<or> len \<le> i then []
      else \<lparr>startTime = of_nat i / of_nat rate,
             endTime = of_nat (min (i + n) len) / of_nat rate,
             intensity = Low\<rparr> # windowSegments len rate n (i + n))"
  by pat_completeness auto
termination
  by (relation "measure (\<lambda>(len, rate, n, i). len - i)") auto

declare windowSegments.simps [simp del]

definition classifiedSegments :: "('a list \<Rightarrow> 'e::linorder) \<Rightarrow> 'a AudioBuffer \<Rightarrow> EnergySegment list" where
  "classifiedSegments rms buffer =
     (let energyLevels = map rms (windows (sampleRate buffer) (channelData buffer));
          sortedEnergy = sort energyLevels
      in map (\<lambda>(segment, energy).
                segment\<lparr>intensity := classify (percentile sortedEnergy (33 / 100))
                                               (percentile sortedEnergy (66 / 100)) energy\<rparr>)
             (zip (windowSegments (length (channelData buffer)) (sampleRate buffer)
                     (sampleRate buffer) 0)
                  energyLevels))"

text \<open>
  A list of segments runs from \<open>a\<close> to \<open>b\<close> without gap or overlap: the first starts at
  \<open>a\<close>, each ends where the next starts, the last ends at \<open>b\<close>.
\<close>

fun chain :: "rat \<Rightarrow> EnergySegment list \<Rightarrow> rat \<Rightarrow> bool" where
  "chain a [] b = (a = b)"
| "chain a (s # ss) b = (startTime s = a \<and> chain (endTime s) ss b)"

text \<open>
  A segment spans a run of classified windows: the run is not empty, the segment starts
  where its first window starts and ends where its last window ends, and every window of
  the run has the intensity of the segment.
\<close>

definition spans :: "EnergySegment \<Rightarrow> EnergySegment list \<Rightarrow> bool" where
  "spans segment run =
     (run \<noteq> [] \<and> startTime segment = startTime (hd run) \<and> endTime segment = endTime (last run)
      \<and> (\<forall>w\<in>set run. intensity w = intensity segment))"

text \<open>The labels of a list of detections, and the label classes of the precedence rule.\<close>

definition labels :: "DetectedObject list \<Rightarrow> string set" where
  "labels objects = set (map objClass objects)"

definition vehicleTrafficLabels :: "string set" where
  "vehicleTrafficLabels = {''car'', ''bus'', ''traffic light''}"

definition sportEquipmentLabels :: "string set" where
  "sportEquipmentLabels = {''sports ball'', ''skateboard'', ''surfboard''}"

definition animalPlantLabels :: "string set" where
  "animalPlantLabels = {''bird'', ''cat'', ''dog'', ''tree''}"

text \<open>Sample buffers and clips for the examples.\<close>

definition silence :: "real AudioBuffer" where
  "silence = \<lparr>channelData = [0, 0, 0, 0, 0], sampleRate = 2\<rparr>"

definition pulse :: "real AudioBuffer" where
  "pulse = \<lparr>channelData = [0, 0, 1, 1, 1, 1, 0], sampleRate = 2\<rparr>"

definition rawEntries :: "json list" where
  "rawEntries =
     [JObj [(''clipIndex'', JNum (Fin (- 5))), (''duration'', JNum (Fin 2)),
            (''description'', JStr ''opening'')],
      JObj [(''clipIndex'', JNum (Fin 1)), (''duration'', JNum (Fin 0)),
            (''description'', JStr ''no time'')],
      JObj [(''clipIndex'', JStr ''1''), (''duration'', JNum (Fin 1)),
            (''description'', JStr ''text index'')],
      JNull,
      JObj [(''clipIndex'', JNum (Fin 7)), (''duration'', JNum PosInf),
            (''description'', JStr [])]]"

definition detected :: "string \<Rightarrow> DetectedObject" where
  "detected name = \<lparr>objClass = name, score = 9 / 10\<rparr>"

definition clipA :: File where
  "clipA = \<lparr>fileName = ''a.mp4'', lastModified = 1700000000000, fileSize = 1024\<rparr>"

definition clipB :: File where
  "clipB = \<lparr>fileName = ''a.mp4'', lastModified = 1700000000000, fileSize = 2048\<rparr>"

section \<open>Energy segmentation: the windows, the classification and the merge\<close>

lemma slice_window: "slice data i (min (i + n) (length data)) = take n (drop i data)"
  by (simp add: slice_def min_def)

lemma windowLoop_closed:
  assumes "0 < n"
  shows "windowLoop rms data rate n i acc =
           Some (fst acc @ windowSegments (length data) rate n i,
                 snd acc @ map rms (windows n (drop i data)))"
proof (induction "length data - i" arbitrary: i acc rule: less_induct)
  case less
  show ?case
  proof (cases "i < length data")
    case False
    then show ?thesis
      by (subst windowLoop.simps) (simp add: windowSegments.simps windows.simps)
  next
    case True
    then have m: "length data - (i + n) < length data - i"
      using assms by simp
    have d: "drop i data \<noteq> []" using True by simp
    show ?thesis
      apply (subst windowLoop.simps)
      apply (subst windowSegments.simps)
      apply (subst windows.simps)
      using True assms d
      apply (simp add: less[OF m] Let_def slice_window add.commute)
      done
  qed
qed

lemma windowSegments_length:
  "0 < n \<Longrightarrow> length (windowSegments (length data) rate n i) = length (windows n (drop i data))"
proof (induction "length data - i" arbitrary: i rule: less_induct)
  case less
  show ?case
  proof (cases "i < length data")
    case False
    then show ?thesis by (simp add: windowSegments.simps windows.simps)
  next
    case True
    then have m: "length data - (i + n) < length data - i"
      using less.prems by simp
    show ?thesis
      apply (subst windowSegments.simps)
      apply (subst windows.simps)
      using True less.prems less.hyps[OF m]
      apply (simp add: add.commute)
      done
  qed
qed

lemma windowSegments_chain:
  "0 < n \<Longrightarrow> i \<le> len \<Longrightarrow>
     chain (of_nat i / of_nat rate) (windowSegments len rate n i) (of_nat len / of_nat rate)"
proof (induction len rate n i rule: windowSegments.induct)
  case (1 len rate n i)
  show ?case
  proof (cases "i < len")
    case False
    with 1 show ?thesis by (simp add: windowSegments.simps)
  next
    case True
    show ?thesis
    proof (cases "i + n \<le> len")
      case le: True
      with 1 True show ?thesis
        by (subst windowSegments.simps) (simp add: min_def)
    next
      case gt: False
      then have "windowSegments len rate n (i + n) = []"
        by (simp add: windowSegments.simps)
      with 1 True gt show ?thesis
        by (subst windowSegments.simps) (simp add: min_def)
    qed
  qed
qed

lemma windowSegments_nonempty: "0 < n \<Longrightarrow> i < len \<Longrightarrow> windowSegments len rate n i \<noteq> []"
  by (subst windowSegments.simps) simp

lemma chain_append: "chain a (xs @ ys) b = (\<exists>m. chain a xs m \<and> chain m ys b)"
  by (induction xs arbitrary: a) auto

lemma chain_classified:
  "length segs = length es \<Longrightarrow>
     chain a (map (\<lambda>(segment, energy). segment\<lparr>intensity := f energy\<rparr>) (zip segs es)) b = chain a segs b"
  by (induction segs es arbitrary: a rule: list_induct2) auto

lemma mergeLoop_chain:
  "chain a merged (startTime cur) \<Longrightarrow> chain (endTime cur) rest b \<Longrightarrow>
     chain a (mergeLoop rest cur merged) b"
proof (induction rest arbitrary: cur merged)
  case Nil
  then show ?case by (simp add: chain_append)
next
  case (Cons nxt rest)
  show ?case
  proof (cases "intensity nxt = intensity cur")
    case True
    with Cons.prems Cons.IH[of merged "cur\<lparr>endTime := endTime nxt\<rparr>"] show ?thesis by simp
  next
    case False
    have "chain a (merged @ [cur]) (startTime nxt)"
      using Cons.prems by (auto simp: chain_append)
    with False Cons.prems Cons.IH[of "merged @ [cur]" nxt] show ?thesis by simp
  qed
qed

lemma mergeLoop_nonempty: "mergeLoop rest cur merged \<noteq> []"
  by (induction rest arbitrary: cur merged) auto

lemma chain_hd: "chain a segs b \<Longrightarrow> segs \<noteq> [] \<Longrightarrow> startTime (hd segs) = a"
  by (cases segs) auto

lemma chain_last: "chain a segs b \<Longrightarrow> segs \<noteq> [] \<Longrightarrow> endTime (last segs) = b"
  by (induction segs arbitrary: a) (auto split: if_splits)

lemma chain_adjacent:
  "chain a segs b \<Longrightarrow> Suc i < length segs \<Longrightarrow> endTime (segs ! i) = startTime (segs ! Suc i)"
proof (induction segs arbitrary: a i)
  case Nil
  then show ?case by simp
next
  case (Cons s segs)
  then show ?case
    by (cases i; cases segs) auto
qed

lemma mergeLoop_distinct_adj:
  "distinct_adj (map intensity (merged @ [cur])) \<Longrightarrow>
     distinct_adj (map intensity (mergeLoop rest cur merged))"
proof (induction rest arbitrary: cur merged)
  case Nil
  then show ?case by simp
next
  case (Cons nxt rest)
  show ?case
  proof (cases "intensity nxt = intensity cur")
    case True
    have "map intensity (merged @ [cur\<lparr>endTime := endTime nxt\<rparr>]) = map intensity (merged @ [cur])"
      by simp
    with Cons.prems have "distinct_adj (map intensity (merged @ [cur\<lparr>endTime := endTime nxt\<rparr>]))"
      by metis
    from Cons.IH[OF this] True show ?thesis by simp
  next
    case False
    have "distinct_adj (map intensity ((merged @ [cur]) @ [nxt]))"
      using Cons.prems False by (simp add: distinct_adj_append_iff)
    from Cons.IH[OF this] False show ?thesis by simp
  qed
qed

lemma distinct_adj_nth:
  "distinct_adj xs \<Longrightarrow> Suc i < length xs \<Longrightarrow> xs ! i \<noteq> xs ! Suc i"
proof (induction xs arbitrary: i)
  case Nil
  then show ?case by simp
next
  case (Cons x xs)
  then show ?case
    by (cases i; cases xs) auto
qed


lemma windows_nonempty: "0 < n \<Longrightarrow> xs \<noteq> [] \<Longrightarrow> windows n xs \<noteq> []"
  by (subst windows.simps) simp

lemma classifiedSegments_nonempty:
  assumes "0 < sampleRate buffer" "channelData buffer \<noteq> []"
  shows "classifiedSegments rms buffer \<noteq> []"
proof -
  have "length (classifiedSegments rms buffer) = length (windows (sampleRate buffer) (channelData buffer))"
    using windowSegments_length[OF assms(1), of "channelData buffer" "sampleRate buffer" 0]
    by (simp add: classifiedSegments_def Let_def)
  with windows_nonempty[OF assms] show ?thesis by auto
qed

lemma classifiedSegments_chain:
  assumes "0 < sampleRate buffer"
  shows "chain 0 (classifiedSegments rms buffer) (bufferDuration buffer)"
proof -
  have "chain (of_nat 0 / of_nat (sampleRate buffer))
          (windowSegments (length (channelData buffer)) (sampleRate buffer) (sampleRate buffer) 0)
          (of_nat (length (channelData buffer)) / of_nat (sampleRate buffer))"
    using assms by (intro windowSegments_chain) simp_all
  then show ?thesis
    using windowSegments_length[OF assms, of "channelData buffer" "sampleRate buffer" 0]
    by (simp add: classifiedSegments_def Let_def chain_classified bufferDuration_def)
qed

lemma analyzeEnergy_merge:
  assumes "0 < sampleRate buffer" "channelData buffer \<noteq> []"
  shows "analyzeEnergy rms buffer =
           Some (mergeLoop (tl (classifiedSegments rms buffer)) (hd (classifiedSegments rms buffer)) [])"
proof -
  have ne: "windows (sampleRate buffer) (channelData buffer) \<noteq> []"
    using windows_nonempty[OF assms] .
  obtain c cs where c: "classifiedSegments rms buffer = c # cs"
    using classifiedSegments_nonempty[OF assms, of rms] by (cases "classifiedSegments rms buffer") auto
  show ?thesis
    using ne c assms(1)
    by (simp add: analyzeEnergy_def windowLoop_closed Let_def classifiedSegments_def)
qed

lemma analyzeEnergy_empty:
  "channelData buffer = [] \<Longrightarrow> analyzeEnergy rms buffer = Some []"
  by (simp add: analyzeEnergy_def windowLoop.simps)

text \<open>
  C5. For a buffer with at least one sample, \<open>analyzeEnergy\<close> returns a non-empty list of
  segments that partitions the track: the first segment starts at 0, each segment ends
  where the next one starts, and the last one ends at the duration of the buffer. For a
  buffer without samples it returns the empty list.
\<close>

theorem energySegments_partition:
  assumes "0 < sampleRate buffer"
  shows "(channelData buffer = [] \<longrightarrow> analyzeEnergy rms buffer = Some []) \<and>
         (channelData buffer \<noteq> [] \<longrightarrow>
            (\<exists>segs. analyzeEnergy rms buffer = Some segs \<and> segs \<noteq> [] \<and>
               startTime (hd segs) = 0 \<and>
               (\<forall>i. Suc i < length segs \<longrightarrow> endTime (segs ! i) = startTime (segs ! Suc i)) \<and>
               endTime (last segs) = bufferDuration buffer))"
proof (intro conjI impI)
  assume "channelData buffer = []"
  then show "analyzeEnergy rms buffer = Some []" by (rule analyzeEnergy_empty)
next
  assume ne: "channelData buffer \<noteq> []"
  let ?cs = "classifiedSegments rms buffer"
  let ?segs = "mergeLoop (tl ?cs) (hd ?cs) []"
  have cs: "?cs \<noteq> []" using classifiedSegments_nonempty[OF assms ne] .
  have "chain 0 (hd ?cs # tl ?cs) (bufferDuration buffer)"
    using classifiedSegments_chain[OF assms, of rms] cs by simp
  then have "chain 0 [] (startTime (hd ?cs))" "chain (endTime (hd ?cs)) (tl ?cs) (bufferDuration buffer)"
    by simp_all
  then have ch: "chain 0 ?segs (bufferDuration buffer)"
    by (rule mergeLoop_chain)
  have n: "?segs \<noteq> []" by (rule mergeLoop_nonempty)
  show "\<exists>segs. analyzeEnergy rms buffer = Some segs \<and> segs \<noteq> [] \<and>
               startTime (hd segs) = 0 \<and>
               (\<forall>i. Suc i < length segs \<longrightarrow> endTime (segs ! i) = startTime (segs ! Suc i)) \<and>
               endTime (last segs) = bufferDuration buffer"
    using analyzeEnergy_merge[OF assms ne, of rms] n chain_hd[OF ch n] chain_last[OF ch n]
      chain_adjacent[OF ch]
    by blast
qed

lemma mergeLoop_runs:
  "list_all2 spans merged runs \<Longrightarrow> spans cur curRun \<Longrightarrow>
     \<exists>runs'. concat runs' = concat runs @ curRun @ rest
            \<and> list_all2 spans (mergeLoop rest cur merged) runs'"
proof (induction rest arbitrary: cur curRun merged runs)
  case Nil
  then have "list_all2 spans (merged @ [cur]) (runs @ [curRun])"
    by (simp add: list_all2_appendI)
  then show ?case
    by (intro exI[of _ "runs @ [curRun]"]) simp
next
  case (Cons nxt rest)
  show ?case
  proof (cases "intensity nxt = intensity cur")
    case True
    have "spans (cur\<lparr>endTime := endTime nxt\<rparr>) (curRun @ [nxt])"
      using Cons.prems(2) True by (auto simp: spans_def)
    from Cons.IH[OF Cons.prems(1) this] True show ?thesis by simp
  next
    case False
    have a: "list_all2 spans (merged @ [cur]) (runs @ [curRun])"
      using Cons.prems by (simp add: list_all2_appendI)
    have b: "spans nxt [nxt]" by (simp add: spans_def)
    from Cons.IH[OF a b] False show ?thesis by simp
  qed
qed

lemma mergeLoop_intensities:
  "map intensity (mergeLoop rest cur merged) =
     map intensity merged @ remdups_adj (map intensity (cur # rest))"
proof (induction rest arbitrary: cur merged)
  case Nil
  then show ?case by simp
next
  case (Cons nxt rest)
  show ?case
  proof (cases "intensity nxt = intensity cur")
    case True
    with Cons.IH[of "cur\<lparr>endTime := endTime nxt\<rparr>" merged] show ?thesis by simp
  next
    case False
    with Cons.IH[of nxt "merged @ [cur]"] show ?thesis by simp
  qed
qed

lemma classifiedSegments_empty:
  "channelData buffer = [] \<Longrightarrow> classifiedSegments rms buffer = []"
  by (simp add: classifiedSegments_def windows.simps)

text \<open>
  C7. \<open>analyzeEnergy\<close> returns, and the list it returns is the classified 1-second
  windows cut into runs, in order, one segment for each run: a segment starts where the
  first window of its run starts, ends where the last one ends, and carries the intensity
  that every window of the run has. The intensities of the segments are those of the
  windows with repetitions in a row removed, so no two neighbours in the list carry the
  same intensity: windows in a row with the same classification are in one segment.
\<close>

theorem energySegments_merge_runs:
  assumes "0 < sampleRate buffer"
  shows "\<exists>segs runs. analyzeEnergy rms buffer = Some segs
           \<and> concat runs = classifiedSegments rms buffer
           \<and> list_all2 spans segs runs
           \<and> map intensity segs = remdups_adj (map intensity (classifiedSegments rms buffer))
           \<and> (\<forall>i. Suc i < length segs \<longrightarrow> intensity (segs ! i) \<noteq> intensity (segs ! Suc i))"
proof (cases "channelData buffer = []")
  case True
  then have "analyzeEnergy rms buffer = Some []" "classifiedSegments rms buffer = []"
    by (simp_all add: analyzeEnergy_empty classifiedSegments_empty)
  then show ?thesis
    by (intro exI[of _ "[]"]) simp
next
  case False
  let ?cs = "classifiedSegments rms buffer"
  let ?segs = "mergeLoop (tl ?cs) (hd ?cs) []"
  have cs: "?cs \<noteq> []" using classifiedSegments_nonempty[OF assms False] .
  then have split: "hd ?cs # tl ?cs = ?cs" by simp
  have "spans (hd ?cs) [hd ?cs]" by (simp add: spans_def)
  with mergeLoop_runs[of "[]" "[]" "hd ?cs" "[hd ?cs]" "tl ?cs"]
  obtain runs where runs: "concat runs = ?cs" "list_all2 spans ?segs runs"
    using split by auto
  have ints: "map intensity ?segs = remdups_adj (map intensity ?cs)"
    using mergeLoop_intensities[of "tl ?cs" "hd ?cs" "[]"] split by simp
  have d: "distinct_adj (map intensity ?segs)"
    unfolding ints by (rule distinct_adj_remdups_adj)
  have adj: "\<forall>i. Suc i < length ?segs \<longrightarrow> intensity (?segs ! i) \<noteq> intensity (?segs ! Suc i)"
  proof (intro allI impI)
    fix i assume i: "Suc i < length ?segs"
    then have "map intensity ?segs ! i \<noteq> map intensity ?segs ! Suc i"
      using distinct_adj_nth[OF d, of i] by simp
    with i show "intensity (?segs ! i) \<noteq> intensity (?segs ! Suc i)" by simp
  qed
  from analyzeEnergy_merge[OF assms False, of rms] runs ints adj show ?thesis by blast
qed

lemma percentile_index:
  assumes "0 < n" "0 \<le> c" "c < 1"
  shows "nat \<lfloor>of_nat n * (c::rat)\<rfloor> < n"
proof -
  have "of_nat n * c < (of_nat n :: rat)"
    using assms by simp
  then have "\<lfloor>of_nat n * c\<rfloor> < int n"
    by (simp add: floor_less_iff)
  moreover have "0 \<le> \<lfloor>of_nat n * c\<rfloor>"
    using assms by simp
  ultimately show ?thesis by (simp add: nat_less_iff)
qed

lemma percentile_uniform:
  assumes "xs \<noteq> []" "\<forall>x\<in>set xs. x = v" "0 \<le> c" "c < 1"
  shows "percentile (sort xs) c = Some v"
proof -
  let ?k = "nat \<lfloor>of_nat (length (sort xs)) * c\<rfloor>"
  have k: "?k < length (sort xs)"
    using assms by (intro percentile_index) simp_all
  then have "sort xs ! ?k \<in> set (sort xs)"
    by (rule nth_mem)
  then have "sort xs ! ?k = v" using assms(2) by simp
  with k show ?thesis by (simp add: percentile_def Let_def)
qed

lemma mergeLoop_uniform:
  "\<forall>s\<in>set rest. intensity s = intensity cur \<Longrightarrow>
     mergeLoop rest cur merged = merged @ [cur\<lparr>endTime := endTime (last (cur # rest))\<rparr>]"
proof (induction rest arbitrary: cur)
  case Nil
  then show ?case by simp
next
  case (Cons nxt rest)
  from Cons.prems have same: "intensity nxt = intensity cur"
    and rest: "\<forall>s\<in>set rest. intensity s = intensity (cur\<lparr>endTime := endTime nxt\<rparr>)"
    by simp_all
  have "mergeLoop (nxt # rest) cur merged = mergeLoop rest (cur\<lparr>endTime := endTime nxt\<rparr>) merged"
    using same by simp
  also have "\<dots> = merged @ [cur\<lparr>endTime := endTime nxt\<rparr>
                \<lparr>endTime := endTime (last (cur\<lparr>endTime := endTime nxt\<rparr> # rest))\<rparr>]"
    by (rule Cons.IH[OF rest])
  also have "\<dots> = merged @ [cur\<lparr>endTime := endTime (last (cur # nxt # rest))\<rparr>]"
    by (cases rest) simp_all
  finally show ?case .
qed

text \<open>
  C10. When every 1-second window of a non-empty buffer has the same energy, both
  thresholds equal that energy, every window is classified high, and \<open>analyzeEnergy\<close>
  returns the single segment from 0 to the duration with intensity high.
\<close>

theorem uniform_energy_single_high_segment:
  assumes rate: "0 < sampleRate buffer"
    and ne: "channelData buffer \<noteq> []"
    and uniform: "\<forall>w\<in>set (windows (sampleRate buffer) (channelData buffer)). rms w = v"
  shows "analyzeEnergy rms buffer =
           Some [\<lparr>startTime = 0, endTime = bufferDuration buffer, intensity = High\<rparr>]"
proof -
  let ?ws = "windows (sampleRate buffer) (channelData buffer)"
  let ?cs = "classifiedSegments rms buffer"
  have ws: "map rms ?ws \<noteq> []" using windows_nonempty[OF rate ne] by simp
  have all: "\<forall>x\<in>set (map rms ?ws). x = v" using uniform by auto
  have lo: "percentile (sort (map rms ?ws)) (33 / 100) = Some v"
    by (rule percentile_uniform[OF ws all]) simp_all
  have hi: "percentile (sort (map rms ?ws)) (33 / 50) = Some v"
    by (rule percentile_uniform[OF ws all]) simp_all
  have high: "\<forall>s\<in>set ?cs. intensity s = High"
    using all
    by (auto simp: classifiedSegments_def Let_def lo hi classify_def atLeast_threshold_def
        dest!: set_zip_rightD)
  have cs: "?cs \<noteq> []" using classifiedSegments_nonempty[OF rate ne] .
  have ch: "chain 0 ?cs (bufferDuration buffer)" using classifiedSegments_chain[OF rate] .
  have "\<forall>s\<in>set (tl ?cs). intensity s = intensity (hd ?cs)"
    using high cs by (metis hd_in_set list.set_sel(2))
  then have "mergeLoop (tl ?cs) (hd ?cs) [] = [hd ?cs\<lparr>endTime := endTime (last (hd ?cs # tl ?cs))\<rparr>]"
    using mergeLoop_uniform[of "tl ?cs" "hd ?cs" "[]"] by simp
  also have "hd ?cs # tl ?cs = ?cs" using cs by simp
  also have "hd ?cs\<lparr>endTime := endTime (last ?cs)\<rparr> =
      \<lparr>startTime = 0, endTime = bufferDuration buffer, intensity = High\<rparr>"
  proof -
    have "intensity (hd ?cs) = High" using high cs by simp
    then show ?thesis
      using chain_hd[OF ch cs] chain_last[OF ch cs] by (cases "hd ?cs") simp
  qed
  finally show ?thesis
    using analyzeEnergy_merge[OF rate ne, of rms] by simp
qed


subsection \<open>Two buffers worked out\<close>

lemma floor_rat_numeral:
  "\<lfloor>numeral a / numeral b :: rat\<rfloor> = numeral a div numeral b"
  by (metis floor_divide_of_int_eq of_int_numeral)

lemmas analyzeEnergy_eval =
  analyzeEnergy_def windowLoop.simps slice_def rmsExact_def percentile_def classify_def
  atLeast_threshold_def Let_def floor_rat_numeral

text \<open>
  Seven samples at two samples per second: four windows with energies 0, 1, 1, 0; the
  thresholds are 0 and 1.
\<close>

lemma pulse_segments:
  "analyzeEnergy rmsExact pulse = Some
     [\<lparr>startTime = 0, endTime = 1, intensity = Medium\<rparr>,
      \<lparr>startTime = 1, endTime = 3, intensity = High\<rparr>,
      \<lparr>startTime = 3, endTime = 7 / 2, intensity = Medium\<rparr>]"
  by (simp add: analyzeEnergy_eval pulse_def)

lemma silence_segments:
  "analyzeEnergy rmsExact silence = Some [\<lparr>startTime = 0, endTime = 5 / 2, intensity = High\<rparr>]"
  by (simp add: analyzeEnergy_eval silence_def)

theorem energySegments_partition_witness:
  "0 < sampleRate pulse \<and> channelData pulse \<noteq> [] \<and>
   (\<exists>segs. analyzeEnergy rmsExact pulse = Some segs \<and> segs \<noteq> [] \<and>
      startTime (hd segs) = 0 \<and>
      (\<forall>i. Suc i < length segs \<longrightarrow> endTime (segs ! i) = startTime (segs ! Suc i)) \<and>
      endTime (last segs) = 7 / 2) \<and>
   analyzeEnergy rmsExact \<lparr>channelData = [], sampleRate = 2\<rparr> = Some []"
proof -
  have rate: "0 < sampleRate pulse" by (simp add: pulse_def)
  have ne: "channelData pulse \<noteq> []" by (simp add: pulse_def)
  have d: "bufferDuration pulse = 7 / 2" by (simp add: bufferDuration_def pulse_def)
  have "\<exists>segs. analyzeEnergy rmsExact pulse = Some segs \<and> segs \<noteq> [] \<and>
      startTime (hd segs) = 0 \<and>
      (\<forall>i. Suc i < length segs \<longrightarrow> endTime (segs ! i) = startTime (segs ! Suc i)) \<and>
      endTime (last segs) = bufferDuration pulse"
    using energySegments_partition[OF rate, of rmsExact] ne by blast
  moreover have "analyzeEnergy rmsExact \<lparr>channelData = [], sampleRate = 2\<rparr> = Some []"
    using energySegments_partition[of "\<lparr>channelData = [], sampleRate = 2\<rparr>" rmsExact] by simp
  ultimately show ?thesis
    unfolding d using rate ne by blast
qed

lemma pulse_classified:
  "classifiedSegments rmsExact pulse =
     [\<lparr>startTime = 0, endTime = 1, intensity = Medium\<rparr>,
      \<lparr>startTime = 1, endTime = 2, intensity = High\<rparr>,
      \<lparr>startTime = 2, endTime = 3, intensity = High\<rparr>,
      \<lparr>startTime = 3, endTime = 7 / 2, intensity = Medium\<rparr>]"
  by (simp add: classifiedSegments_def pulse_def windows.simps windowSegments.simps
      rmsExact_def percentile_def classify_def atLeast_threshold_def Let_def floor_rat_numeral)

theorem energySegments_merge_runs_witness:
  "0 < sampleRate pulse \<and>
   map intensity (classifiedSegments rmsExact pulse) = [Medium, High, High, Medium] \<and>
   (\<exists>segs runs. analyzeEnergy rmsExact pulse = Some segs
      \<and> concat runs = classifiedSegments rmsExact pulse
      \<and> list_all2 spans segs runs
      \<and> map intensity segs = [Medium, High, Medium])"
proof -
  have rate: "0 < sampleRate pulse" by (simp add: pulse_def)
  have c: "map intensity (classifiedSegments rmsExact pulse) = [Medium, High, High, Medium]"
    by (simp add: pulse_classified)
  have "remdups_adj (map intensity (classifiedSegments rmsExact pulse)) = [Medium, High, Medium]"
    unfolding c by simp
  with energySegments_merge_runs[OF rate, of rmsExact] rate c show ?thesis
    by metis
qed

theorem uniform_energy_single_high_segment_witness:
  "analyzeEnergy rmsExact silence = Some [\<lparr>startTime = 0, endTime = 5 / 2, intensity = High\<rparr>]"
proof -
  have rate: "0 < sampleRate silence" by (simp add: silence_def)
  have ne: "channelData silence \<noteq> []" by (simp add: silence_def)
  have "windows 2 [0, 0, 0, 0, 0 :: real] = [[0, 0], [0, 0], [0]]"
    by (simp add: windows.simps)
  then have uniform: "\<forall>w\<in>set (windows (sampleRate silence) (channelData silence)). rmsExact w = 0"
    by (simp add: silence_def rmsExact_def)
  have "bufferDuration silence = 5 / 2" by (simp add: bufferDuration_def silence_def)
  with uniform_energy_single_high_segment[OF rate ne uniform] show ?thesis
    by simp
qed

section \<open>The validator: which entries survive and what is returned\<close>

lemma set_map_filter_iff:
  "(y \<in> set (List.map_filter f xs)) = (\<exists>x\<in>set xs. f x = Some y)"
  by (induction xs) (auto split: option.splits)

lemma catchError_no_sequence: "catchError msg_no_sequence = msg_no_sequence"
  by (simp add: catchError_def msg_no_sequence_def)

lemma catchError_not_array: "catchError msg_not_array = msg_unable"
  by (simp add: catchError_def msg_not_array_def)

lemma catchError_unexpected: "catchError msg_unexpected_format = msg_unexpected_format"
  by (simp add: catchError_def msg_unexpected_format_def)

lemma createVideoSequence_array:
  "createVideoSequence n (Some (JArr items)) =
     (if repairedAndValidatedDecisions n items = [] then Inl msg_no_sequence
      else Inr (repairedAndValidatedDecisions n items))"
  by (simp add: createVideoSequence_def validateResponse_def Let_def catchError_no_sequence)

lemma parsed_getProp:
  "parsed item \<Longrightarrow> getProp item name = Some v \<Longrightarrow> parsed v"
  by (cases item) (auto simp: list_all_iff dest!: map_of_SomeD)

lemma not_le_zero_iff: "d \<noteq> NaN \<Longrightarrow> (\<not> js_le d (Fin 0)) = js_lt (Fin 0) d"
  by (cases d) auto

lemma repairItem_valid_iff:
  assumes "parsed item"
  shows "(repairItem n item \<noteq> None) = structurallyValid item"
proof -
  have "\<And>d. getProp item ''duration'' = Some (JNum d) \<Longrightarrow> (\<not> js_le d (Fin 0)) = js_lt (Fin 0) d"
    using parsed_getProp[OF assms] not_le_zero_iff by fastforce
  then show ?thesis
    by (auto simp: repairItem_def structurallyValid_def isNumber_def isPositiveNumber_def
        isString_def split: option.splits json.splits)
qed

lemma repairItem_duration:
  assumes "parsed item" "repairItem n item = Some d"
  shows "js_lt (Fin 0) (duration d) \<and> getProp item ''duration'' = Some (JNum (duration d))
         \<and> getProp item ''description'' = Some (JStr (description d))"
proof -
  have "\<And>d. getProp item ''duration'' = Some (JNum d) \<Longrightarrow> (\<not> js_le d (Fin 0)) = js_lt (Fin 0) d"
    using parsed_getProp[OF assms(1)] not_le_zero_iff by fastforce
  with assms(2) show ?thesis
    by (auto simp: repairItem_def split: option.splits json.splits if_splits)
qed

lemma repaired_filter_valid:
  "list_all parsed items \<Longrightarrow>
     repairedAndValidatedDecisions n (filter structurallyValid items) =
     repairedAndValidatedDecisions n items
     \<and> length (repairedAndValidatedDecisions n items) = length (filter structurallyValid items)"
proof (induction items)
  case Nil
  then show ?case by (simp add: repairedAndValidatedDecisions_def)
next
  case (Cons item items)
  then have p: "parsed item" and ps: "list_all parsed items" by simp_all
  show ?case
    using Cons.IH[OF ps] repairItem_valid_iff[OF p, of n]
    by (cases "repairItem n item")
       (auto simp: repairedAndValidatedDecisions_def)
qed

lemma repaired_durations:
  "list_all parsed items \<Longrightarrow> d \<in> set (repairedAndValidatedDecisions n items) \<Longrightarrow>
     js_lt (Fin 0) (duration d)"
  by (auto simp: repairedAndValidatedDecisions_def set_map_filter_iff list_all_iff
      dest: repairItem_duration)

text \<open>
  C2, as amended. For an array of parsed entries, \<open>createVideoSequence\<close> returns
  the repaired decisions of exactly the entries whose \<open>clipIndex\<close> is a number, whose
  \<open>duration\<close> is a number greater than 0 and whose \<open>description\<close> is a string (possibly
  empty), one decision per such entry and in their order; every other entry is dropped
  without an error, and the call fails only when no entry is left. Every returned
  decision has a duration greater than 0.
\<close>

theorem validated_decisions:
  assumes "list_all parsed items"
  shows "createVideoSequence n (Some (JArr items)) =
           (if filter structurallyValid items = [] then Inl msg_no_sequence
            else Inr (repairedAndValidatedDecisions n (filter structurallyValid items)))
         \<and> length (repairedAndValidatedDecisions n (filter structurallyValid items)) =
             length (filter structurallyValid items)
         \<and> (\<forall>d\<in>set (repairedAndValidatedDecisions n (filter structurallyValid items)).
               js_lt (Fin 0) (duration d))"
proof -
  note r = repaired_filter_valid[OF assms, of n]
  have "(repairedAndValidatedDecisions n items = []) = (filter structurallyValid items = [])"
    using r by (metis length_0_conv)
  then show ?thesis
    using r repaired_durations[OF assms, of _ n]
    by (simp add: createVideoSequence_array)
qed

subsection \<open>The repaired index of a finite clipIndex\<close>

lemma repair_finite:
  assumes "0 < n"
  shows "\<exists>r. js_rem (js_abs (Fin q)) (Fin (of_nat n)) = Fin r \<and> 0 \<le> r \<and> r < of_nat n"
proof -
  let ?m = "of_nat n :: rat"
  let ?k = "\<lfloor>\<bar>q\<bar> / ?m\<rfloor>"
  have m: "0 < ?m" using assms by simp
  have t: "trunc (\<bar>q\<bar> / ?m) = ?k" using m by (simp add: trunc_def)
  have "of_int ?k \<le> \<bar>q\<bar> / ?m" by (rule of_int_floor_le)
  then have lo: "of_int ?k * ?m \<le> \<bar>q\<bar>"
    using pos_le_divide_eq[OF m, of "of_int ?k" "\<bar>q\<bar>"] by blast
  have "\<bar>q\<bar> / ?m < of_int ?k + 1"
    using floor_correct[of "\<bar>q\<bar> / ?m"] by simp
  then have "\<bar>q\<bar> < (of_int ?k + 1) * ?m"
    using pos_divide_less_eq[OF m, of "\<bar>q\<bar>" "of_int ?k + 1"] by blast
  then have hi: "\<bar>q\<bar> < of_int ?k * ?m + ?m"
    by (simp add: algebra_simps)
  have "js_rem (js_abs (Fin q)) (Fin ?m) = Fin (\<bar>q\<bar> - ?m * of_int ?k)"
    using m t by simp
  moreover have "0 \<le> \<bar>q\<bar> - ?m * of_int ?k" using lo by (simp add: mult.commute)
  moreover have "\<bar>q\<bar> - ?m * of_int ?k < ?m" using hi by (simp add: mult.commute)
  ultimately show ?thesis by blast
qed

lemma repair_integer:
  assumes "0 < n"
  shows "js_rem (js_abs (Fin (of_int z))) (Fin (of_nat n)) = Fin (of_int (\<bar>z\<bar> mod int n))"
proof -
  have m: "(0::rat) < of_nat n" using assms by simp
  have "\<lfloor>(of_int \<bar>z\<bar> :: rat) / of_int (int n)\<rfloor> = \<bar>z\<bar> div int n"
    by (rule floor_divide_of_int_eq)
  then have t: "trunc (\<bar>of_int z :: rat\<bar> / of_nat n) = \<bar>z\<bar> div int n"
    using m by (simp add: trunc_def)
  have "js_rem (js_abs (Fin (of_int z))) (Fin (of_nat n)) =
          Fin (\<bar>of_int z\<bar> - of_nat n * of_int (\<bar>z\<bar> div int n))"
    using m t by simp
  also have "\<bar>of_int z :: rat\<bar> - of_nat n * of_int (\<bar>z\<bar> div int n) =
          of_int (\<bar>z\<bar> - int n * (\<bar>z\<bar> div int n))"
    by simp
  also have "\<bar>z\<bar> - int n * (\<bar>z\<bar> div int n) = \<bar>z\<bar> mod int n"
    by (simp add: minus_mult_div_eq_mod)
  finally show ?thesis .
qed

lemma repair_minus_five: "js_rem (js_abs (Fin (- 5))) (Fin (of_nat 3)) = Fin 2"
  using repair_integer[of 3 "- 5"] by simp

lemma rem_5_3: "js_rem (Fin 5) (Fin 3) = Fin 2"
  using repair_integer[of 3 5] by simp

subsection \<open>Responses worked out\<close>

lemma trunc_numeral: "trunc (numeral a / numeral b) = numeral a div numeral b"
  by (simp add: trunc_def floor_rat_numeral)

lemma trunc_zero: "trunc 0 = 0"
  by (simp add: trunc_def)

lemmas validator_eval =
  createVideoSequence_array repairedAndValidatedDecisions_def repairItem_def
  trunc_numeral trunc_zero

text \<open>
  C1. An entry whose \<open>clipIndex\<close> is \<open>Infinity\<close> (the value \<open>JSON.parse\<close> gives the
  literal \<open>1e999\<close>) passes the check \<open>typeof clipIndex === 'number'\<close>; its repaired
  index \<open>Math.abs(Infinity) % 3\<close> is NaN, which is not in the range from 0 to 3.
\<close>

theorem infinite_clipIndex_not_repaired:
  "createVideoSequence 3
     (Some (JArr [JObj [(''clipIndex'', JNum PosInf), (''duration'', JNum (Fin 1)),
                        (''description'', JStr ''x'')]]))
     = Inr [\<lparr>clipIndex = NaN, duration = Fin 1, description = ''x''\<rparr>]
   \<and> \<not> inRange NaN 3"
  by (simp add: validator_eval inRange_def)

text \<open>
  C2, the claim as stated: an entry whose description is the empty string is not
  discarded; the decision returned for it has an empty description.
\<close>

theorem empty_description_kept:
  "createVideoSequence 1
     (Some (JArr [JObj [(''clipIndex'', JNum (Fin 0)), (''duration'', JNum (Fin 1)),
                        (''description'', JStr [])]]))
     = Inr [\<lparr>clipIndex = Fin 0, duration = Fin 1, description = []\<rparr>]"
  by (simp add: validator_eval)

lemma rawEntries_valid:
  "filter structurallyValid rawEntries =
     [JObj [(''clipIndex'', JNum (Fin (- 5))), (''duration'', JNum (Fin 2)),
            (''description'', JStr ''opening'')],
      JObj [(''clipIndex'', JNum (Fin 7)), (''duration'', JNum PosInf),
            (''description'', JStr [])]]"
  by (simp add: rawEntries_def structurallyValid_def isNumber_def isPositiveNumber_def
      isString_def)

theorem validated_decisions_witness:
  "createVideoSequence 3 (Some (JArr rawEntries)) =
     Inr [\<lparr>clipIndex = Fin 2, duration = Fin 2, description = ''opening''\<rparr>,
          \<lparr>clipIndex = Fin 1, duration = PosInf, description = []\<rparr>]"
proof -
  have p: "list_all parsed rawEntries" by (simp add: rawEntries_def)
  have "repairedAndValidatedDecisions 3 (filter structurallyValid rawEntries) =
     [\<lparr>clipIndex = Fin 2, duration = Fin 2, description = ''opening''\<rparr>,
      \<lparr>clipIndex = Fin 1, duration = PosInf, description = []\<rparr>]"
    unfolding rawEntries_valid by (simp add: validator_eval)
  with validated_decisions[OF p, of 3] show ?thesis
    by (simp add: rawEntries_valid)
qed

text \<open>
  C6, as amended. A single object that has a \<open>clipIndex\<close> property is treated as
  the one-element list holding it; a single object without one is rejected, and the
  caller sees the general failure message.
\<close>

theorem bare_object_with_clipIndex:
  "createVideoSequence n (Some (JObj kvs)) =
     (if has_key kvs ''clipIndex'' then createVideoSequence n (Some (JArr [JObj kvs]))
      else Inl msg_unable)"
  by (simp add: createVideoSequence_def validateResponse_def catchError_not_array)

lemma messages_differ: "msg_unable \<noteq> msg_no_sequence"
  by (simp add: msg_unable_def msg_no_sequence_def)

text \<open>
  C6, the claim as stated: for a bare object without \<open>clipIndex\<close> the call does not do
  what it does for the one-element list holding that object: the two fail with different
  errors.
\<close>

theorem bare_object_without_clipIndex:
  "createVideoSequence 3
     (Some (JObj [(''duration'', JNum (Fin 2)), (''description'', JStr ''x'')]))
     = Inl msg_unable
   \<and> createVideoSequence 3
       (Some (JArr [JObj [(''duration'', JNum (Fin 2)), (''description'', JStr ''x'')]]))
     = Inl msg_no_sequence
   \<and> msg_unable \<noteq> msg_no_sequence"
proof -
  have "createVideoSequence 3
     (Some (JObj [(''duration'', JNum (Fin 2)), (''description'', JStr ''x'')]))
     = Inl msg_unable"
    by (simp add: createVideoSequence_def validateResponse_def catchError_not_array has_key_def)
  moreover have "createVideoSequence 3
       (Some (JArr [JObj [(''duration'', JNum (Fin 2)), (''description'', JStr ''x'')]]))
     = Inl msg_no_sequence"
    by (simp add: validator_eval)
  ultimately show ?thesis using messages_differ by simp
qed

theorem bare_object_with_clipIndex_witness:
  "createVideoSequence 3
     (Some (JObj [(''clipIndex'', JNum (Fin (- 5))), (''duration'', JNum (Fin 2)),
                  (''description'', JStr ''x'')]))
     = Inr [\<lparr>clipIndex = Fin 2, duration = Fin 2, description = ''x''\<rparr>]"
proof -
  have "createVideoSequence 3
     (Some (JArr [JObj [(''clipIndex'', JNum (Fin (- 5))), (''duration'', JNum (Fin 2)),
                  (''description'', JStr ''x'')]]))
     = Inr [\<lparr>clipIndex = Fin 2, duration = Fin 2, description = ''x''\<rparr>]"
    by (simp add: validator_eval)
  with bare_object_with_clipIndex[of 3 "[(''clipIndex'', JNum (Fin (- 5))), (''duration'', JNum (Fin 2)),
                  (''description'', JStr ''x'')]"]
  show ?thesis by (simp add: has_key_def)
qed

section \<open>Clip ids and analysis keys\<close>

lemma digit_inj: "d < 10 \<Longrightarrow> d' < 10 \<Longrightarrow> digit d = digit d' \<Longrightarrow> d = d'"
proof -
  assume "d < 10" "d' < 10" "digit d = digit d'"
  moreover have "distinct ''0123456789''" by simp
  moreover have "length ''0123456789'' = 10" by simp
  ultimately show "d = d'"
    unfolding digit_def by (metis nth_eq_iff_index_eq)
qed

lemma showNat_nonempty: "showNat n \<noteq> []"
  by (subst showNat.simps) simp

lemma showNat_inj: "showNat a = showNat b \<Longrightarrow> a = b"
proof (induction a arbitrary: b rule: showNat.induct)
  case (1 a)
  show ?case
  proof (cases "a < 10")
    case True
    then have sa: "showNat a = [digit a]" by (subst showNat.simps) simp
    show ?thesis
    proof (cases "b < 10")
      case b: True
      then have "showNat b = [digit b]" by (subst showNat.simps) simp
      with sa "1.prems" True b show ?thesis by (auto dest: digit_inj)
    next
      case b: False
      then have "showNat b = showNat (b div 10) @ [digit (b mod 10)]"
        by (subst showNat.simps) simp
      with sa "1.prems" showNat_nonempty[of "b div 10"] show ?thesis
        by (cases "showNat (b div 10)") auto
    qed
  next
    case False
    then have sa: "showNat a = showNat (a div 10) @ [digit (a mod 10)]"
      by (subst showNat.simps) simp
    show ?thesis
    proof (cases "b < 10")
      case b: True
      then have "showNat b = [digit b]" by (subst showNat.simps) simp
      with sa "1.prems" showNat_nonempty[of "a div 10"] show ?thesis
        by (cases "showNat (a div 10)") auto
    next
      case b: False
      then have "showNat b = showNat (b div 10) @ [digit (b mod 10)]"
        by (subst showNat.simps) simp
      with sa "1.prems" have e: "showNat (a div 10) = showNat (b div 10)"
        and d: "digit (a mod 10) = digit (b mod 10)" by simp_all
      from "1.IH"[OF False e] have "a div 10 = b div 10" .
      moreover from d have "a mod 10 = b mod 10" by (intro digit_inj) simp_all
      ultimately show ?thesis by (metis div_mult_mod_eq)
    qed
  qed
qed

lemma show_17: "showInt 1700000000000 = ''1700000000000''"
  by (simp add: showInt_def showNat.simps digit_def)

lemma fileId_clipA: "fileId clipA = ''a.mp4-1700000000000-1024''"
  by (simp add: fileId_def clipA_def showInt_def showNat.simps digit_def)

text \<open>
  C4, as amended. The id that \<open>getClipMetadata\<close> gives a clip is its name and
  modification time joined by a hyphen; the size is not part of it, so two files with
  the same name and modification time get the same id whatever their sizes. The key of
  the analysis service is that id followed by a hyphen and the size, and it does tell
  such files apart exactly when their sizes differ.
\<close>

theorem clip_id_ignores_size:
  assumes "getClipMetadata f loaded frame now = Inr m"
    and "getClipMetadata g loaded' frame' now' = Inr m'"
    and "fileName f = fileName g" and "lastModified f = lastModified g"
  shows "clipId m = fileName f @ ''-'' @ showInt (lastModified f)
         \<and> clipId m' = clipId m
         \<and> fileId f = clipId m @ ''-'' @ showNat (fileSize f)
         \<and> (fileId f = fileId g) = (fileSize f = fileSize g)"
proof -
  have "clipId m = fileName f @ ''-'' @ showInt (lastModified f)"
    using assms(1) by (auto simp: getClipMetadata_def split: option.splits sum.splits)
  moreover have "clipId m' = fileName g @ ''-'' @ showInt (lastModified g)"
    using assms(2) by (auto simp: getClipMetadata_def split: option.splits sum.splits)
  moreover have "(fileId f = fileId g) = (fileSize f = fileSize g)"
    using assms(3,4) by (auto simp: fileId_def dest: showNat_inj)
  ultimately show ?thesis
    using assms(3,4) by (simp add: fileId_def)
qed

text \<open>
  C4, the claim as stated: two files that differ only in size receive the same id.
\<close>

theorem same_id_for_different_sizes:
  "getClipMetadata clipA (Some (10, 640, 480)) (Inr ''thumb'') 0 =
     Inr \<lparr>clipId = ''a.mp4-1700000000000'', clipFile = clipA, clipName = ''a.mp4'',
          clipSize = 1024, clipDuration = 10, resolution = (640, 480), thumbnail = ''thumb'',
          createdAt = 0\<rparr>
   \<and> getClipMetadata clipB (Some (10, 640, 480)) (Inr ''thumb'') 0 =
     Inr \<lparr>clipId = ''a.mp4-1700000000000'', clipFile = clipB, clipName = ''a.mp4'',
          clipSize = 2048, clipDuration = 10, resolution = (640, 480), thumbnail = ''thumb'',
          createdAt = 0\<rparr>
   \<and> fileSize clipA \<noteq> fileSize clipB"
  by (simp add: getClipMetadata_def clipA_def clipB_def show_17)

theorem clip_id_ignores_size_witness: "fileId clipA \<noteq> fileId clipB"
proof -
  have a: "getClipMetadata clipA (Some (10, 640, 480)) (Inr ''thumb'') 0 =
     Inr \<lparr>clipId = ''a.mp4-1700000000000'', clipFile = clipA, clipName = ''a.mp4'',
          clipSize = 1024, clipDuration = 10, resolution = (640, 480), thumbnail = ''thumb'',
          createdAt = 0\<rparr>"
    by (simp add: getClipMetadata_def clipA_def show_17)
  have b: "getClipMetadata clipB (Some (10, 640, 480)) (Inr ''thumb'') 0 =
     Inr \<lparr>clipId = ''a.mp4-1700000000000'', clipFile = clipB, clipName = ''a.mp4'',
          clipSize = 2048, clipDuration = 10, resolution = (640, 480), thumbnail = ''thumb'',
          createdAt = 0\<rparr>"
    by (simp add: getClipMetadata_def clipB_def show_17)
  have n: "fileName clipA = fileName clipB" and l: "lastModified clipA = lastModified clipB"
    by (simp_all add: clipA_def clipB_def)
  have "fileSize clipA \<noteq> fileSize clipB" by (simp add: clipA_def clipB_def)
  with clip_id_ignores_size[OF a b n l] show ?thesis by blast
qed

section \<open>The dominant category\<close>

lemma classifyObjects_labels:
  "classifyObjects objects =
     (if ''person'' \<in> labels objects then People
      else if labels objects \<inter> vehicleTrafficLabels \<noteq> {} then Urban
      else if labels objects \<inter> sportEquipmentLabels \<noteq> {} then Action
      else if labels objects \<inter> animalPlantLabels \<noteq> {} then Nature
      else Other)"
  by (auto simp: classifyObjects_def labels_def Let_def vehicleTrafficLabels_def
      sportEquipmentLabels_def animalPlantLabels_def)

text \<open>
  C9. \<open>classifyObjects\<close> follows the precedence people, urban, action, nature, other: a
  person label gives People; failing that a vehicle or traffic label gives Urban;
  failing that a sport or equipment label gives Action; failing that an animal or plant
  label gives Nature; otherwise Other.
\<close>

theorem classifyObjects_precedence:
  "(''person'' \<in> labels objects \<longrightarrow> classifyObjects objects = People) \<and>
   (''person'' \<notin> labels objects \<and> labels objects \<inter> vehicleTrafficLabels \<noteq> {}
      \<longrightarrow> classifyObjects objects = Urban) \<and>
   (''person'' \<notin> labels objects \<and> labels objects \<inter> vehicleTrafficLabels = {}
      \<and> labels objects \<inter> sportEquipmentLabels \<noteq> {}
      \<longrightarrow> classifyObjects objects = Action) \<and>
   (''person'' \<notin> labels objects \<and> labels objects \<inter> vehicleTrafficLabels = {}
      \<and> labels objects \<inter> sportEquipmentLabels = {}
      \<and> labels objects \<inter> animalPlantLabels \<noteq> {}
      \<longrightarrow> classifyObjects objects = Nature) \<and>
   (''person'' \<notin> labels objects \<and> labels objects \<inter> vehicleTrafficLabels = {}
      \<and> labels objects \<inter> sportEquipmentLabels = {}
      \<and> labels objects \<inter> animalPlantLabels = {}
      \<longrightarrow> classifyObjects objects = Other)"
  by (simp add: classifyObjects_labels)

theorem classifyObjects_precedence_witness:
  "classifyObjects [detected ''person'', detected ''car''] = People \<and>
   classifyObjects [detected ''dog'', detected ''car''] = Urban \<and>
   classifyObjects [detected ''dog'', detected ''skateboard''] = Action \<and>
   classifyObjects [detected ''chair'', detected ''dog''] = Nature \<and>
   classifyObjects [detected ''chair''] = Other"
proof -
  note defs = labels_def detected_def vehicleTrafficLabels_def sportEquipmentLabels_def
    animalPlantLabels_def
  have "classifyObjects [detected ''person'', detected ''car''] = People"
    using classifyObjects_precedence[of "[detected ''person'', detected ''car'']"]
    by (simp add: defs)
  moreover have "classifyObjects [detected ''dog'', detected ''car''] = Urban"
    using classifyObjects_precedence[of "[detected ''dog'', detected ''car'']"]
    by (simp add: defs)
  moreover have "classifyObjects [detected ''dog'', detected ''skateboard''] = Action"
    using classifyObjects_precedence[of "[detected ''dog'', detected ''skateboard'']"]
    by (simp add: defs)
  moreover have "classifyObjects [detected ''chair'', detected ''dog''] = Nature"
    using classifyObjects_precedence[of "[detected ''chair'', detected ''dog'']"]
    by (simp add: defs)
  moreover have "classifyObjects [detected ''chair''] = Other"
    using classifyObjects_precedence[of "[detected ''chair'']"]
    by (simp add: defs)
  ultimately show ?thesis by simp
qed

section \<open>The reply of the worker\<close>

lemma sumBrightness_returns: "\<exists>b. sumBrightness luma soFar fds = Inr b"
  by (induction fds arbitrary: soFar) (simp_all add: callFrameFunction_def frameFunction_def)

lemma analyzeSobel_undefined:
  "callFrameFunction luma ''analyzeSobel'' frame = Inl ''analyzeSobel is not defined''"
  by (simp add: callFrameFunction_def frameFunction_def)

lemma analysisResult_fails:
  "analysisResult luma frameDatas objectPredictions faceCount = Inl ''analyzeSobel is not defined''"
proof -
  obtain b where "sumBrightness luma 0 frameDatas = Inr b"
    using sumBrightness_returns by blast
  then show ?thesis
    by (simp add: analysisResult_def analyzeSobel_undefined)
qed

text \<open>
  C3. The handler calls \<open>analyzeSobel\<close>, a name that \<open>workerCode\<close> does not declare
  (the Sobel function is declared as \<open>applySobel\<close>). Whatever the frames and the
  predictions are, the call throws, and the worker replies with a failure: no analysis,
  and so no \<open>visualComplexity\<close>, is ever produced.
\<close>

theorem worker_never_succeeds:
  "workerOnMessage luma fid stages =
     Failed fid (case stages of Inl e \<Rightarrow> e | Inr frames \<Rightarrow> ''analyzeSobel is not defined'')"
  by (cases stages) (auto simp: workerOnMessage_def analysisResult_fails)

text \<open>
  With such a reply the handler of the main thread rejects the promise of the task: a
  call of \<open>analyzeVideoContent\<close> never resolves with an analysis.
\<close>

lemma analysis_promise_rejected:
  assumes "runningTasks s fid = Some task"
  shows "\<exists>e. settled (onWorkerMessage (workerOnMessage luma fid stages) s) =
              settled s @ [(task, Inl e)]"
proof -
  obtain e where "workerOnMessage luma fid stages = Failed fid e"
    by (cases stages) (auto simp: workerOnMessage_def analysisResult_fails)
  with assms show ?thesis
    by (simp add: onWorkerMessage_def replyKey_def)
qed

text \<open>
  The function the handler does not reach: the value of \<open>applySobel\<close> is the number of
  inner pixels whose gradient magnitude exceeds 128 over the number of pixels, a fraction
  between 0 and 1.
\<close>

lemma edgePixels_bound: "edgePixels gray w h \<le> (h - 2) * (w - 2)"
proof -
  have "sum_list (map (\<lambda>y. length (filter (\<lambda>x. isEdge gray w (y * w + x)) [1..<w - 1])) [1..<h - 1])
        \<le> sum_list (map (\<lambda>y. w - 2) [1..<h - 1])"
  proof (rule sum_list_mono)
    fix y assume "y \<in> set [1..<h - 1]"
    have "length (filter (\<lambda>x. isEdge gray w (y * w + x)) [1..<w - 1]) \<le> length [1..<w - 1]"
      by (rule length_filter_le)
    then show "length (filter (\<lambda>x. isEdge gray w (y * w + x)) [1..<w - 1]) \<le> w - 2"
      by simp
  qed
  also have "sum_list (map (\<lambda>y. w - 2) [1..<h - 1]) = (h - 2) * (w - 2)"
    by (simp add: sum_list_triv numeral_2_eq_2)
  finally show ?thesis
    by (simp add: edgePixels_def)
qed

lemma applySobel_unit_interval: "0 \<le> applySobel luma img \<and> applySobel luma img \<le> 1"
proof -
  let ?e = "edgePixels (grayscale luma img) (width img) (height img)"
  have "?e \<le> (height img - 2) * (width img - 2)" by (rule edgePixels_bound)
  also have "\<dots> \<le> height img * width img" by (intro mult_le_mono) simp_all
  finally have "?e \<le> width img * height img" by (simp add: mult.commute)
  then have "(of_nat ?e :: rat) \<le> of_nat (width img * height img)"
    using of_nat_le_iff by blast
  moreover have "(0::rat) \<le> of_nat (width img * height img)" by simp
  ultimately have "(of_nat ?e :: rat) / of_nat (width img * height img) \<le> 1"
    by (metis divide_le_eq_1 less_eq_rat_def)
  then show ?thesis
    unfolding applySobel_def by simp
qed

section \<open>Duplicate submissions\<close>

lemma reachable_worker:
  "reachable s \<Longrightarrow> runningTasks s k = Some p \<Longrightarrow> hasWorker s"
proof (induction arbitrary: k p rule: reachable.induct)
  case start
  then show ?case by (simp add: initialRegistry_def)
next
  case (call s canCreate f)
  then show ?case
    by (auto simp: analyzeVideoContent_def getWorker_def Let_def split: if_splits)
next
  case (reply s r)
  then show ?case
    by (auto simp: onWorkerMessage_def split: option.splits if_splits)
qed

lemma running_posted:
  "reachable s \<Longrightarrow> runningTasks s k = Some p \<Longrightarrow> k \<in> snd ` set (posted s)"
proof (induction arbitrary: k p rule: reachable.induct)
  case start
  then show ?case by (simp add: initialRegistry_def)
next
  case (call s canCreate f)
  then show ?case
    by (auto simp: analyzeVideoContent_def getWorker_def Let_def split: if_splits)
next
  case (reply s r)
  then show ?case
    by (auto simp: onWorkerMessage_def split: option.splits if_splits)
qed

lemma fresh_submission_starts:
  assumes "hasWorker s \<or> canCreate" and "runningTasks s (fileId file) = None"
  shows "fst (analyzeVideoContent canCreate file s) = Pending (promises s)
         \<and> runningTasks (snd (analyzeVideoContent canCreate file s)) (fileId file) = Some (promises s)
         \<and> posted (snd (analyzeVideoContent canCreate file s)) = posted s @ [(file, fileId file)]"
  using assms by (auto simp: analyzeVideoContent_def getWorker_def Let_def)

text \<open>
  C8. In every state the module can reach, a call of \<open>analyzeVideoContent\<close> for a file
  whose key has a task in \<open>runningTasks\<close> returns a promise rejected with the message
  that the clip is already being analyzed, and leaves the state as it was: no task is
  added and no message is posted to the worker.
\<close>

theorem duplicate_submission_rejected:
  assumes "reachable s" and "runningTasks s (fileId file) \<noteq> None"
  shows "analyzeVideoContent canCreate file s =
           (Rejected ''This clip is already being analyzed.'', s)
         \<and> posted (snd (analyzeVideoContent canCreate file s)) = posted s"
proof -
  from assms(2) obtain p where "runningTasks s (fileId file) = Some p" by blast
  with assms(1) have "hasWorker s" by (rule reachable_worker)
  with assms(2) show ?thesis
    by (simp add: analyzeVideoContent_def getWorker_def)
qed

lemma first_submission:
  "analyzeVideoContent True clipA initialRegistry =
     (Pending 0,
      \<lparr>hasWorker = True, runningTasks = [fileId clipA \<mapsto> 0],
       posted = [(clipA, fileId clipA)], settled = [], promises = 1\<rparr>)"
  by (simp add: analyzeVideoContent_def getWorker_def initialRegistry_def)

theorem duplicate_submission_rejected_witness:
  "analyzeVideoContent True clipA (snd (analyzeVideoContent True clipA initialRegistry)) =
     (Rejected ''This clip is already being analyzed.'',
      snd (analyzeVideoContent True clipA initialRegistry))
   \<and> posted (snd (analyzeVideoContent True clipA
                    (snd (analyzeVideoContent True clipA initialRegistry)))) =
       [(clipA, ''a.mp4-1700000000000-1024'')]"
proof -
  let ?s = "snd (analyzeVideoContent True clipA initialRegistry)"
  have r: "reachable ?s" by (intro reachable.call reachable.start)
  have k: "runningTasks ?s (fileId clipA) \<noteq> None" by (simp add: first_submission)
  have "posted ?s = [(clipA, ''a.mp4-1700000000000-1024'')]"
    by (simp add: first_submission fileId_clipA)
  with duplicate_submission_rejected[OF r k, of True] show ?thesis by simp
qed

end
